theory Spec2Isabelle
  imports
    Main
    "HOL-Library.Sublist"
    "HOL-Library.Char_ord"
    "HOL-Library.List_Lexorder"
    "HOL-Library.Multiset"
begin

section \<open>PassNameParser.h: pass names as command line option values\<close>

text \<open>
  The header \<^verbatim>\<open>include/llvm/Support/PassNameParser.h\<close> defines
  \<^verbatim>\<open>PassNameParser\<close>, \<^verbatim>\<open>FilteredPassNameParser<Filter>\<close> and
  \<^verbatim>\<open>PassArgFilter<Args>\<close>. Each member function is embedded below under its own name.
  C strings (\<^verbatim>\<open>const char*\<close>) are \<open>string option\<close> where the pointer may be null
  (\<open>None\<close>) and \<open>string\<close> where the code has already excluded null; the \<open>string\<close> holds
  the bytes before the terminating NUL. Other pointers that the code compares with 0 are
  \<open>nat option\<close>.
\<close>

subsection \<open>Descriptors\<close>

type_synonym ctor_ptr = nat
type_synonym option_ptr = nat

text \<open>
  Modelled from the spec: the Descriptor (\<^verbatim>\<open>PassInfo\<close>, declared in \<^verbatim>\<open>llvm/Pass.h\<close>): an
  immutable record with a token that may be absent or empty (\<^verbatim>\<open>getPassArgument()\<close>, a
  \<^verbatim>\<open>const char*\<close>), a display name (\<^verbatim>\<open>getPassName()\<close>) and a constructor that may be
  null (\<^verbatim>\<open>getNormalCtor()\<close>, the constructible flag).
\<close>

record PassInfo =
  getPassName :: string
  getPassArgument :: "string option"
  getNormalCtor :: "ctor_ptr option"

subsection \<open>The eligibility check\<close>

text \<open>
  A refinement (\<^verbatim>\<open>ignorablePassImpl\<close>, virtual) answers \<open>Some b\<close>, or \<open>None\<close> when its
  evaluation is undefined (a null pointer handed to \<^verbatim>\<open>strstr\<close>).
\<close>

type_synonym refinement = "PassInfo \<Rightarrow> bool option"

text \<open>\<^verbatim>\<open>PassNameParser::ignorablePassImpl\<close>: \<^verbatim>\<open>return false\<close>.\<close>

definition PassNameParser_ignorablePassImpl :: refinement where
  "PassNameParser_ignorablePassImpl P = Some False"

text \<open>
  \<^verbatim>\<open>PassNameParser::ignorablePass\<close>: the four disjuncts of the \<^verbatim>\<open>||\<close> chain, evaluated
  left to right; the refinement is reached only when the first three are false.
\<close>

definition ignorablePass :: "refinement \<Rightarrow> PassInfo \<Rightarrow> bool option" where
  "ignorablePass impl P =
     (case getPassArgument P of
        None \<Rightarrow> Some True
      | Some arg \<Rightarrow>
          if arg = [] then Some True
          else if getNormalCtor P = None then Some True
          else impl P)"

subsection \<open>The filtered variant\<close>

text \<open>
  \<^verbatim>\<open>strstr(haystack, needle)\<close> of the C library: a pointer to the first occurrence of
  \<open>needle\<close> in \<open>haystack\<close> (the rest of the haystack from there), or null.
\<close>

fun strstr :: "string \<Rightarrow> string \<Rightarrow> string option" where
  "strstr [] needle = (if needle = [] then Some [] else None)"
| "strstr (c # cs) needle =
     (if prefix needle (c # cs) then Some (c # cs) else strstr cs needle)"

text \<open>
  \<^verbatim>\<open>PassArgFilter<Args>::operator()\<close>: \<^verbatim>\<open>return(std::strstr(Args, P.getPassArgument()))\<close>,
  the pointer converted to \<^verbatim>\<open>bool\<close>. A null token is undefined behaviour in \<^verbatim>\<open>strstr\<close>.
\<close>

definition PassArgFilter :: "string \<Rightarrow> PassInfo \<Rightarrow> bool option" where
  "PassArgFilter Args P =
     (case getPassArgument P of
        None \<Rightarrow> None
      | Some arg \<Rightarrow> Some (strstr Args arg \<noteq> None))"

text \<open>\<^verbatim>\<open>FilteredPassNameParser<Filter>::ignorablePassImpl\<close>: \<^verbatim>\<open>return !filter(*P)\<close>.\<close>

definition FilteredPassNameParser_ignorablePassImpl ::
    "(PassInfo \<Rightarrow> bool option) \<Rightarrow> refinement" where
  "FilteredPassNameParser_ignorablePassImpl filter_fn P = map_option Not (filter_fn P)"

text \<open>
  The allow-list as the specification words it: the whitespace-delimited entries of the
  configured string. This definition follows the specification, not the code; it is what
  \<open>PassArgFilter\<close> is compared with.
\<close>

definition isspace :: "char \<Rightarrow> bool" where
  "isspace c = (c \<in> set [CHR '' '', CHR 0x09, CHR 0x0A, CHR 0x0B, CHR 0x0C, CHR 0x0D])"

fun entries_from :: "string \<Rightarrow> string \<Rightarrow> string list" where
  "entries_from cur [] = (if cur = [] then [] else [rev cur])"
| "entries_from cur (c # cs) =
     (if isspace c then (if cur = [] then entries_from [] cs else rev cur # entries_from [] cs)
      else entries_from (c # cur) cs)"

definition spec_allowlist_entries :: "string \<Rightarrow> string list" where
  "spec_allowlist_entries Args = entries_from [] Args"

subsection \<open>The registrar\<close>

text \<open>
  \<^verbatim>\<open>ValType\<close>: \<^verbatim>\<open>std::pair<const char*, std::pair<const PassInfo*, const char*> >\<close>, an
  entry of the table \<^verbatim>\<open>Values\<close> that \<^verbatim>\<open>cl::parser<const PassInfo*>\<close> keeps. A
  \<^verbatim>\<open>PassInfo\<close> is immutable, so the entry holds the record where the code holds its
  address.
\<close>

type_synonym ValType = "string \<times> (PassInfo \<times> string)"

record PassNameParser =
  Opt :: "option_ptr option"
  Values :: "ValType list"

text \<open>The constructor: \<^verbatim>\<open>PassNameParser() : Opt(0) {}\<close>, with an empty table.\<close>

definition PassNameParser_new :: PassNameParser where
  "PassNameParser_new = \<lparr>Opt = None, Values = []\<rparr>"

text \<open>
  Modelled from the spec: the members of \<^verbatim>\<open>cl::parser\<close> (\<^verbatim>\<open>llvm/Support/CommandLine.h\<close>)
  that \<^verbatim>\<open>passRegistered\<close> calls. \<^verbatim>\<open>getNumOptions\<close> is the number of entries;
  \<^verbatim>\<open>findOption\<close> looks the token up among the existing entries, comparing strings, and
  answers the index of the first entry with that token, or \<^verbatim>\<open>getNumOptions()\<close> when there
  is none; \<^verbatim>\<open>addLiteralOption\<close> appends a new entry (token, Descriptor, display name).
\<close>

definition getNumOptions :: "PassNameParser \<Rightarrow> nat" where
  "getNumOptions s = length (Values s)"

fun find_from :: "nat \<Rightarrow> string \<Rightarrow> ValType list \<Rightarrow> nat" where
  "find_from i N [] = i"
| "find_from i N (v # vs) = (if fst v = N then i else find_from (Suc i) N vs)"

definition findOption :: "PassNameParser \<Rightarrow> string \<Rightarrow> nat" where
  "findOption s Name = find_from 0 Name (Values s)"

definition addLiteralOption ::
    "string \<Rightarrow> PassInfo \<Rightarrow> string \<Rightarrow> PassNameParser \<Rightarrow> PassNameParser" where
  "addLiteralOption Name V HelpStr s = s\<lparr>Values := Values s @ [(Name, (V, HelpStr))]\<rparr>"

text \<open>
  The ways a call can fail to return: \<^verbatim>\<open>abort()\<close> after a message on \<^verbatim>\<open>cerr\<close> (the
  message is kept), and undefined behaviour inside the refinement.
\<close>

datatype error = Abort string | Undefined

definition duplicate_message :: "string \<Rightarrow> string" where
  "duplicate_message arg =
     ''Two passes with the same argument (-'' @ arg @ '') attempted to be registered!'' @ [CHR 0x0A]"

text \<open>
  \<^verbatim>\<open>PassNameParser::passRegistered\<close>. The refinement of the parser's class is the
  parameter \<open>impl\<close>. After \<^verbatim>\<open>ignorablePass(P)\<close> answered false the token is not null; the
  \<open>None\<close> branch of the second \<open>case\<close> is there to keep the model total.
\<close>

definition passRegistered ::
    "refinement \<Rightarrow> PassInfo \<Rightarrow> PassNameParser \<Rightarrow> error + PassNameParser" where
  "passRegistered impl P s =
     (case ignorablePass impl P of
        None \<Rightarrow> Inl Undefined
      | Some ignorable \<Rightarrow>
          if ignorable \<or> Opt s = None then Inr s
          else (case getPassArgument P of
                  None \<Rightarrow> Inl Undefined
                | Some arg \<Rightarrow>
                    if findOption s arg \<noteq> getNumOptions s
                    then Inl (Abort (duplicate_message arg))
                    else Inr (addLiteralOption arg P (getPassName P) s)))"

text \<open>\<^verbatim>\<open>PassNameParser::passEnumerate\<close>: \<^verbatim>\<open>passRegistered(P)\<close>.\<close>

definition passEnumerate ::
    "refinement \<Rightarrow> PassInfo \<Rightarrow> PassNameParser \<Rightarrow> error + PassNameParser" where
  "passEnumerate impl P s = passRegistered impl P s"

text \<open>
  Modelled from the spec: \<^verbatim>\<open>PassRegistrationListener::enumeratePasses\<close> (\<^verbatim>\<open>llvm/Pass.h\<close>),
  the replay of every Descriptor already known, in registration order, each routed through
  \<^verbatim>\<open>passEnumerate\<close>. The known Descriptors are the parameter \<open>known\<close>; an abort ends the
  replay.
\<close>

fun enumeratePasses ::
    "refinement \<Rightarrow> PassInfo list \<Rightarrow> PassNameParser \<Rightarrow> error + PassNameParser" where
  "enumeratePasses impl [] s = Inr s"
| "enumeratePasses impl (P # Ps) s =
     (case passEnumerate impl P s of
        Inl e \<Rightarrow> Inl e
      | Inr s' \<Rightarrow> enumeratePasses impl Ps s')"

text \<open>
  \<^verbatim>\<open>PassNameParser::initialize\<close>: \<^verbatim>\<open>Opt = &O\<close>, the base class's \<^verbatim>\<open>initialize\<close> (which
  does not touch \<^verbatim>\<open>Values\<close>), then \<^verbatim>\<open>enumeratePasses()\<close>.
\<close>

definition initialize ::
    "refinement \<Rightarrow> PassInfo list \<Rightarrow> option_ptr \<Rightarrow> PassNameParser \<Rightarrow> error + PassNameParser" where
  "initialize impl known O' s = enumeratePasses impl known (s\<lparr>Opt := Some O'\<rparr>)"

subsection \<open>Sorting for display\<close>

text \<open>\<^verbatim>\<open>PassNameParser::ValLessThan\<close>: the tokens compared as \<^verbatim>\<open>std::string\<close>s, bytewise.\<close>

definition ValLessThan :: "ValType \<Rightarrow> ValType \<Rightarrow> bool" where
  "ValLessThan VT1 VT2 = (fst VT1 < fst VT2)"

text \<open>
  \<^verbatim>\<open>std::sort(first, last, comp)\<close>, as insertion from the right. The standard leaves the
  relative order of equivalent elements open; this model keeps it, which is one of the
  outcomes the standard allows. What the standard promises of every outcome is
  \<open>std_sort_contract\<close> below. With distinct tokens (the invariant of the table) the
  contract leaves one outcome only (lemmas \<open>std_sort_contract_unique\<close> and
  \<open>printOptionInfo_any_sort\<close>); with a repeated token it does not
  (\<open>std_sort_contract_ties\<close>), and nothing is stated there that depends on the order of
  entries with equal tokens.
\<close>

fun sort_insert :: "('a \<Rightarrow> 'a \<Rightarrow> bool) \<Rightarrow> 'a \<Rightarrow> 'a list \<Rightarrow> 'a list" where
  "sort_insert lt x [] = [x]"
| "sort_insert lt x (y # ys) =
     (if lt y x then y # sort_insert lt x ys else x # y # ys)"

definition std_sort :: "('a \<Rightarrow> 'a \<Rightarrow> bool) \<Rightarrow> 'a list \<Rightarrow> 'a list" where
  "std_sort lt xs = foldr (sort_insert lt) xs []"

text \<open>
  The postcondition of \<^verbatim>\<open>std::sort(first, last, comp)\<close>: the range holds a permutation of
  what it held, and no element is less (by \<^verbatim>\<open>comp\<close>) than an element before it.
\<close>

definition std_sort_contract :: "('a \<Rightarrow> 'a \<Rightarrow> bool) \<Rightarrow> 'a list \<Rightarrow> 'a list \<Rightarrow> bool" where
  "std_sort_contract lt xs ys = (mset ys = mset xs \<and> sorted_wrt (\<lambda>a b. \<not> lt b a) ys)"

text \<open>
  Modelled from the spec: the base class's \<^verbatim>\<open>cl::parser::printOptionInfo\<close>
  (\<^verbatim>\<open>llvm/Support/CommandLine.h\<close>), the underlying option-rendering facility. It presents
  the entries in the order in which \<^verbatim>\<open>Values\<close> holds them; the result is what is
  presented.
\<close>

definition parser_printOptionInfo :: "PassNameParser \<Rightarrow> ValType list" where
  "parser_printOptionInfo s = Values s"

text \<open>
  \<^verbatim>\<open>PassNameParser::printOptionInfo\<close>: the \<^verbatim>\<open>const_cast\<close> and the \<^verbatim>\<open>std::sort\<close> of
  \<^verbatim>\<open>Values\<close> in place, then the base class's \<^verbatim>\<open>printOptionInfo\<close>. The result is the
  registrar after the call and what was presented.
\<close>

definition printOptionInfo :: "PassNameParser \<Rightarrow> PassNameParser \<times> ValType list" where
  "printOptionInfo s =
     (let PNP = s\<lparr>Values := std_sort ValLessThan (Values s)\<rparr>
      in (PNP, parser_printOptionInfo PNP))"

subsection \<open>The registry and the events a registrar sees\<close>

text \<open>
  Modelled from the spec: the Registry Notifier. It knows the Descriptors registered so
  far (\<open>known\<close>), calls the listener's \<^verbatim>\<open>passRegistered\<close> once for each Descriptor
  registered after the listener subscribed (the listener subscribes when it is
  constructed), and replays the known ones when the listener asks
  (\<^verbatim>\<open>enumeratePasses\<close>, from \<^verbatim>\<open>initialize\<close>).
\<close>

record system =
  known :: "PassInfo list"
  listener :: PassNameParser

definition system_new :: system where
  "system_new = \<lparr>known = [], listener = PassNameParser_new\<rparr>"

datatype event = RegisterPass PassInfo | Initialize option_ptr | PrintOptionInfo

fun step :: "refinement \<Rightarrow> event \<Rightarrow> system \<Rightarrow> error + system" where
  "step impl (RegisterPass P) sys =
     (case passRegistered impl P (listener sys) of
        Inl e \<Rightarrow> Inl e
      | Inr s' \<Rightarrow> Inr \<lparr>known = known sys @ [P], listener = s'\<rparr>)"
| "step impl (Initialize O') sys =
     (case initialize impl (known sys) O' (listener sys) of
        Inl e \<Rightarrow> Inl e
      | Inr s' \<Rightarrow> Inr (sys\<lparr>listener := s'\<rparr>))"
| "step impl PrintOptionInfo sys =
     Inr (sys\<lparr>listener := fst (printOptionInfo (listener sys))\<rparr>)"

fun run :: "refinement \<Rightarrow> event list \<Rightarrow> system \<Rightarrow> error + system" where
  "run impl [] sys = Inr sys"
| "run impl (ev # evs) sys =
     (case step impl ev sys of
        Inl e \<Rightarrow> Inl e
      | Inr sys' \<Rightarrow> run impl evs sys')"

subsection \<open>Example Descriptors and the entries of a list of Descriptors\<close>

text \<open>
  A constructible Descriptor with the given token and display name, and the entry that
  \<^verbatim>\<open>passRegistered\<close> makes for it; used at concrete inputs only.
\<close>

definition example_pass :: "string \<Rightarrow> string \<Rightarrow> PassInfo" where
  "example_pass arg name = \<lparr>getPassName = name, getPassArgument = Some arg, getNormalCtor = Some 1\<rparr>"

definition example_entry :: "string \<Rightarrow> string \<Rightarrow> ValType" where
  "example_entry arg name = (arg, (example_pass arg name, name))"

text \<open>
  The entries that \<^verbatim>\<open>addLiteralOption(P->getPassArgument(), P, P->getPassName())\<close>
  appends for a list of Descriptors, in order (a Descriptor with a null token has none).
\<close>

fun literal_entries :: "PassInfo list \<Rightarrow> ValType list" where
  "literal_entries [] = []"
| "literal_entries (P # Ps) =
     (case getPassArgument P of
        None \<Rightarrow> literal_entries Ps
      | Some arg \<Rightarrow> (arg, (P, getPassName P)) # literal_entries Ps)"

section \<open>Auxiliary facts\<close>

subsection \<open>Lookup\<close>

lemma find_from_end: "find_from i N vs = i + length vs \<longleftrightarrow> N \<notin> fst ` set vs"
proof (induction vs arbitrary: i)
  case Nil
  show ?case by simp
next
  case (Cons v vs)
  show ?case
  proof (cases "fst v = N")
    case True
    then show ?thesis by auto
  next
    case False
    with Cons [of "Suc i"] show ?thesis by simp
  qed
qed

lemma findOption_found: "findOption s N \<noteq> getNumOptions s \<longleftrightarrow> N \<in> fst ` set (Values s)"
  using find_from_end [of 0 N "Values s"] by (simp add: findOption_def getNumOptions_def)

subsection \<open>passRegistered\<close>

lemma passRegistered_eligible:
  assumes "ignorablePass impl P = Some False" "Opt s \<noteq> None" "getPassArgument P = Some arg"
  shows "passRegistered impl P s =
           (if arg \<in> fst ` set (Values s) then Inl (Abort (duplicate_message arg))
            else Inr (s\<lparr>Values := Values s @ [(arg, (P, getPassName P))]\<rparr>))"
  using assms by (auto simp: passRegistered_def findOption_found addLiteralOption_def)

lemma ignorablePass_False_token:
  "ignorablePass impl P = Some False \<Longrightarrow> \<exists>arg. getPassArgument P = Some arg \<and> arg \<noteq> []"
  by (auto simp: ignorablePass_def split: option.splits if_splits)

lemma passRegistered_Inr_cases:
  assumes "passRegistered impl P s = Inr s'"
  shows "s' = s \<or> (\<exists>arg. getPassArgument P = Some arg \<and> arg \<notin> fst ` set (Values s)
                        \<and> s' = s\<lparr>Values := Values s @ [(arg, (P, getPassName P))]\<rparr>)"
  using assms
  by (auto simp: passRegistered_def findOption_found addLiteralOption_def
           split: option.splits if_splits)

lemma passRegistered_distinct:
  assumes "passRegistered impl P s = Inr s'" "distinct (map fst (Values s))"
  shows "distinct (map fst (Values s'))"
  using passRegistered_Inr_cases [OF assms(1)] assms(2) by auto

lemma passRegistered_Opt:
  "passRegistered impl P s = Inr s' \<Longrightarrow> Opt s' = Opt s"
  by (drule passRegistered_Inr_cases) auto

lemma enumeratePasses_distinct:
  "enumeratePasses impl Ps s = Inr s' \<Longrightarrow> distinct (map fst (Values s))
   \<Longrightarrow> distinct (map fst (Values s'))"
proof (induction Ps arbitrary: s)
  case Nil
  then show ?case by simp
next
  case (Cons P Ps)
  from Cons.prems(1) obtain s1 where
    s1: "passRegistered impl P s = Inr s1" and rest: "enumeratePasses impl Ps s1 = Inr s'"
    by (auto simp: passEnumerate_def split: sum.splits)
  show ?case
    by (rule Cons.IH [OF rest passRegistered_distinct [OF s1 Cons.prems(2)]])
qed

subsection \<open>std_sort\<close>

lemma sort_insert_insort: "sort_insert ValLessThan x ys = insort_key fst x ys"
  by (induction ys) (auto simp: ValLessThan_def)

lemma std_sort_sort_key: "std_sort ValLessThan xs = sort_key fst xs"
  by (induction xs) (auto simp: std_sort_def sort_insert_insort sort_key_def)

lemma std_sort_mset: "mset (std_sort ValLessThan xs) = mset xs"
  by (simp add: std_sort_sort_key)

lemma std_sort_sorted: "sorted (map fst (std_sort ValLessThan xs))"
  by (simp add: std_sort_sort_key)

lemma std_sort_idem: "std_sort ValLessThan (std_sort ValLessThan xs) = std_sort ValLessThan xs"
  by (simp add: std_sort_sort_key sort_key_id_if_sorted)

lemma std_sort_distinct:
  "distinct (map fst (std_sort ValLessThan xs)) \<longleftrightarrow> distinct (map fst xs)"
proof -
  have "mset (map fst (std_sort ValLessThan xs)) = mset (map fst xs)"
    by (simp add: std_sort_mset)
  then show ?thesis by (rule mset_eq_imp_distinct_iff)
qed

lemma std_sort_unique:
  assumes "distinct (map fst xs)" "mset ys = mset xs" "sorted (map fst ys)"
  shows "ys = std_sort ValLessThan xs"
proof -
  have dy: "distinct (map fst ys)"
    using assms(1,2) by (metis mset_eq_imp_distinct_iff mset_map)
  have sets: "set ys = set xs" using assms(2) by (rule mset_eq_setD)
  have one: "filter (\<lambda>x. fst k = fst x) zs = [k]"
    if "k \<in> set zs" "distinct (map fst zs)" for k :: ValType and zs
    using that
  proof (induction zs)
    case Nil
    then show ?case by simp
  next
    case (Cons z zs)
    show ?case
    proof (cases "k = z")
      case True
      have "filter (\<lambda>x. fst z = fst x) zs = []"
        using Cons.prems(2) by (auto simp: filter_empty_conv)
      with True show ?thesis by simp
    next
      case False
      with Cons.prems have k: "k \<in> set zs" and d: "distinct (map fst zs)"
        and ne: "fst k \<noteq> fst z"
        by (auto simp: image_iff)
      from Cons.IH [OF k d] ne show ?thesis by simp
    qed
  qed
  have "sort_key fst xs = ys"
  proof (rule properties_for_sort_key [OF assms(2) _ assms(3)])
    fix k assume k: "k \<in> set ys"
    then have "k \<in> set xs" using sets by simp
    from one [OF k dy] one [OF this assms(1)]
    show "filter (\<lambda>x. fst k = fst x) ys = filter (\<lambda>x. fst k = fst x) xs" by simp
  qed
  then show ?thesis by (simp add: std_sort_sort_key)
qed

subsection \<open>The filter\<close>

lemma strstr_sublist: "strstr haystack needle \<noteq> None \<longleftrightarrow> sublist needle haystack"
  by (induction haystack) (auto simp: sublist_Cons_right)

lemma PassArgFilter_sublist:
  "getPassArgument P = Some arg \<Longrightarrow> PassArgFilter Args P = Some (sublist arg Args)"
  using strstr_sublist [of Args arg] by (auto simp: PassArgFilter_def)

subsection \<open>Runs of events\<close>

lemma printOptionInfo_Values:
  "Values (fst (printOptionInfo s)) = std_sort ValLessThan (Values s)"
  by (simp add: printOptionInfo_def Let_def)

lemma printOptionInfo_any_sort:
  assumes "distinct (map fst (Values s))" "mset ys = mset (Values s)" "sorted (map fst ys)"
  shows "ys = snd (printOptionInfo s)"
  using std_sort_unique [OF assms]
  by (simp add: printOptionInfo_def parser_printOptionInfo_def Let_def)

lemma step_distinct:
  assumes "step impl ev sys = Inr sys'" "distinct (map fst (Values (listener sys)))"
  shows "distinct (map fst (Values (listener sys')))"
proof (cases ev)
  case (RegisterPass P)
  with assms(1) obtain s' where "passRegistered impl P (listener sys) = Inr s'"
    and "listener sys' = s'"
    by (auto split: sum.splits)
  with assms(2) show ?thesis by (auto dest: passRegistered_distinct)
next
  case (Initialize O')
  with assms(1) obtain s' where
    "enumeratePasses impl (known sys) ((listener sys)\<lparr>Opt := Some O'\<rparr>) = Inr s'"
    and "listener sys' = s'"
    by (auto simp: initialize_def split: sum.splits)
  with assms(2) show ?thesis by (auto dest: enumeratePasses_distinct)
next
  case PrintOptionInfo
  with assms show ?thesis by (auto simp: printOptionInfo_Values std_sort_distinct)
qed

lemma run_distinct:
  "run impl evs sys = Inr sys' \<Longrightarrow> distinct (map fst (Values (listener sys)))
   \<Longrightarrow> distinct (map fst (Values (listener sys')))"
proof (induction evs arbitrary: sys)
  case Nil
  then show ?case by simp
next
  case (Cons ev evs)
  from Cons.prems(1) obtain sys1 where
    s: "step impl ev sys = Inr sys1" and r: "run impl evs sys1 = Inr sys'"
    by (auto split: sum.splits)
  show ?case by (rule Cons.IH [OF r step_distinct [OF s Cons.prems(2)]])
qed

lemma run_append:
  "run impl (evs @ evs') sys =
     (case run impl evs sys of Inl e \<Rightarrow> Inl e | Inr sys' \<Rightarrow> run impl evs' sys')"
  by (induction evs arbitrary: sys) (auto split: sum.splits)

lemma literal_entries_append:
  "literal_entries (Ps @ Qs) = literal_entries Ps @ literal_entries Qs"
  by (induction Ps) (auto split: option.splits)

lemma literal_entries_tokens:
  "\<forall>P \<in> set Ps. getPassArgument P \<noteq> None
   \<Longrightarrow> map (Some \<circ> fst) (literal_entries Ps) = map getPassArgument Ps"
  by (induction Ps) auto

lemma enumeratePasses_fresh:
  assumes "Opt s \<noteq> None"
    and "\<forall>P \<in> set Ps. ignorablePass impl P = Some False"
    and "distinct (map getPassArgument Ps)"
    and "\<forall>P \<in> set Ps. \<forall>arg. getPassArgument P = Some arg \<longrightarrow> arg \<notin> fst ` set (Values s)"
  shows "enumeratePasses impl Ps s = Inr (s\<lparr>Values := Values s @ literal_entries Ps\<rparr>)"
  using assms
proof (induction Ps arbitrary: s)
  case Nil
  then show ?case by simp
next
  case (Cons P Ps)
  from Cons.prems(2) have el: "ignorablePass impl P = Some False" by simp
  then obtain arg where arg: "getPassArgument P = Some arg"
    using ignorablePass_False_token by blast
  let ?s1 = "s\<lparr>Values := Values s @ [(arg, (P, getPassName P))]\<rparr>"
  from Cons.prems(4) arg have "arg \<notin> fst ` set (Values s)" by simp
  then have one: "passRegistered impl P s = Inr ?s1"
    by (simp add: passRegistered_eligible [OF el Cons.prems(1) arg])
  have fresh: "\<forall>Q \<in> set Ps. \<forall>a. getPassArgument Q = Some a \<longrightarrow> a \<notin> fst ` set (Values ?s1)"
  proof (intro ballI allI impI)
    fix Q a assume Q: "Q \<in> set Ps" and a: "getPassArgument Q = Some a"
    from Cons.prems(3) Q arg a have "a \<noteq> arg" by (auto simp: image_iff)
    moreover from Cons.prems(4) Q a have "a \<notin> fst ` set (Values s)" by simp
    ultimately show "a \<notin> fst ` set (Values ?s1)" by simp
  qed
  have "enumeratePasses impl Ps ?s1 = Inr (?s1\<lparr>Values := Values ?s1 @ literal_entries Ps\<rparr>)"
    using Cons.prems by (intro Cons.IH fresh) simp_all
  with one arg show ?case by (simp add: passEnumerate_def)
qed

lemma enumeratePasses_unattached:
  assumes "Opt s = None" and "\<forall>P \<in> set Ps. ignorablePass impl P \<noteq> None"
  shows "enumeratePasses impl Ps s = Inr s"
  using assms by (induction Ps) (auto simp: passEnumerate_def passRegistered_def)

lemma run_register_enumerate:
  "run impl (map RegisterPass Ps) sys =
     (case enumeratePasses impl Ps (listener sys) of
        Inl e \<Rightarrow> Inl e
      | Inr s' \<Rightarrow> Inr \<lparr>known = known sys @ Ps, listener = s'\<rparr>)"
proof (induction Ps arbitrary: sys)
  case Nil
  show ?case by simp
next
  case (Cons P Ps)
  show ?case
    by (cases "passRegistered impl P (listener sys)")
       (simp_all add: passEnumerate_def Cons.IH split: sum.splits)
qed

subsection \<open>Any conforming sort; entries are kept\<close>

lemma std_sort_contract_ValLessThan:
  "std_sort_contract ValLessThan xs ys \<longleftrightarrow> mset ys = mset xs \<and> sorted (map fst ys)"
  by (simp add: std_sort_contract_def ValLessThan_def sorted_map not_less)

lemma std_sort_conforms: "std_sort_contract ValLessThan xs (std_sort ValLessThan xs)"
  by (simp add: std_sort_contract_ValLessThan std_sort_mset std_sort_sorted)

lemma std_sort_contract_distinct:
  assumes "std_sort_contract ValLessThan xs ys"
  shows "distinct (map fst ys) \<longleftrightarrow> distinct (map fst xs)"
proof -
  from assms have "mset (map fst ys) = mset (map fst xs)"
    by (simp add: std_sort_contract_ValLessThan)
  then show ?thesis by (rule mset_eq_imp_distinct_iff)
qed

lemma std_sort_contract_unique:
  assumes "distinct (map fst xs)" "std_sort_contract ValLessThan xs ys"
  shows "ys = std_sort ValLessThan xs"
  using assms by (intro std_sort_unique) (simp_all add: std_sort_contract_ValLessThan)

lemma std_sort_contract_twice:
  assumes "distinct (map fst xs)"
    and "std_sort_contract ValLessThan xs ys" and "std_sort_contract ValLessThan ys zs"
  shows "ys = std_sort ValLessThan xs \<and> zs = ys"
proof -
  have ys: "ys = std_sort ValLessThan xs"
    by (rule std_sort_contract_unique [OF assms(1,2)])
  have dy: "distinct (map fst ys)"
    using std_sort_contract_distinct [OF assms(2)] assms(1) by simp
  have "zs = std_sort ValLessThan ys"
    by (rule std_sort_contract_unique [OF dy assms(3)])
  with ys show ?thesis by (simp add: std_sort_idem)
qed

lemma step_kept:
  assumes "step impl ev sys = Inr sys'"
  shows "set (Values (listener sys)) \<subseteq> set (Values (listener sys'))
       \<and> (Opt (listener sys) \<noteq> None \<longrightarrow> Opt (listener sys') \<noteq> None)"
proof (cases ev)
  case (RegisterPass P)
  with assms obtain s' where "passRegistered impl P (listener sys) = Inr s'"
    and "listener sys' = s'"
    by (auto split: sum.splits)
  then show ?thesis by (auto dest: passRegistered_Inr_cases)
next
  case (Initialize O')
  with assms obtain s' where
    e: "enumeratePasses impl (known sys) ((listener sys)\<lparr>Opt := Some O'\<rparr>) = Inr s'"
    and l: "listener sys' = s'"
    by (auto simp: initialize_def split: sum.splits)
  have "enumeratePasses impl Ps s = Inr s'
        \<Longrightarrow> set (Values s) \<subseteq> set (Values s') \<and> Opt s' = Opt s" for Ps s
  proof (induction Ps arbitrary: s)
    case Nil
    then show ?case by simp
  next
    case (Cons P Ps)
    from Cons.prems obtain s1 where
      s1: "passRegistered impl P s = Inr s1" and rest: "enumeratePasses impl Ps s1 = Inr s'"
      by (auto simp: passEnumerate_def split: sum.splits)
    from passRegistered_Inr_cases [OF s1] have "set (Values s) \<subseteq> set (Values s1)"
      and "Opt s1 = Opt s"
      by auto
    with Cons.IH [OF rest] show ?case by auto
  qed
  from this [OF e] l show ?thesis by auto
next
  case PrintOptionInfo
  with assms have "Values (listener sys') = std_sort ValLessThan (Values (listener sys))"
    and "Opt (listener sys') = Opt (listener sys)"
    by (auto simp: printOptionInfo_def Let_def)
  moreover have "set (std_sort ValLessThan xs) = set xs" for xs
    using std_sort_mset [of xs] by (rule mset_eq_setD)
  ultimately show ?thesis by simp
qed

lemma run_kept:
  "run impl evs sys = Inr sys'
   \<Longrightarrow> set (Values (listener sys)) \<subseteq> set (Values (listener sys'))
       \<and> (Opt (listener sys) \<noteq> None \<longrightarrow> Opt (listener sys') \<noteq> None)"
proof (induction evs arbitrary: sys)
  case Nil
  then show ?case by simp
next
  case (Cons ev evs)
  from Cons.prems obtain sys1 where
    s: "step impl ev sys = Inr sys1" and r: "run impl evs sys1 = Inr sys'"
    by (auto split: sum.splits)
  from step_kept [OF s] Cons.IH [OF r] show ?case by auto
qed

lemma duplicate_message_names_token: "sublist arg (duplicate_message arg)"
  unfolding duplicate_message_def by (rule sublist_appendI)

lemma std_sort_contract_ties:
  "std_sort_contract ValLessThan
     [(''dce'', (example_pass ''dce'' ''First'', ''First'')),
      (''dce'', (example_pass ''dce'' ''Second'', ''Second''))]
     [(''dce'', (example_pass ''dce'' ''Second'', ''Second'')),
      (''dce'', (example_pass ''dce'' ''First'', ''First''))]"
  by (simp add: std_sort_contract_def ValLessThan_def)

lemmas example_defs =
  system_new_def PassNameParser_new_def passRegistered_def ignorablePass_def
  PassNameParser_ignorablePassImpl_def example_pass_def example_entry_def initialize_def
  passEnumerate_def findOption_def getNumOptions_def addLiteralOption_def printOptionInfo_def
  std_sort_def ValLessThan_def parser_printOptionInfo_def Let_def

section \<open>Properties of the eligibility check\<close>

text \<open>
  C5. A Descriptor whose token is absent (null) or empty, or whose constructor is null, is
  ignorable whatever the refinement would answer: the check rejects it.
\<close>

theorem ignorablePass_rejects_unselectable:
  "getPassArgument P = None \<or> getPassArgument P = Some [] \<or> getNormalCtor P = None
   \<Longrightarrow> ignorablePass impl P = Some True"
  by (auto simp: ignorablePass_def split: option.splits)

theorem ignorablePass_rejects_unselectable_witness:
  "ignorablePass (\<lambda>P. Some False)
     \<lparr>getPassName = ''Dead Code Elimination'', getPassArgument = Some '''',
      getNormalCtor = Some 1\<rparr> = Some True
   \<and> ignorablePass (\<lambda>P. None)
     \<lparr>getPassName = ''Dead Code Elimination'', getPassArgument = Some ''dce'',
      getNormalCtor = None\<rparr> = Some True
   \<and> ignorablePass (\<lambda>P. Some False)
     \<lparr>getPassName = ''Dead Code Elimination'', getPassArgument = None,
      getNormalCtor = Some 1\<rparr> = Some True"
  using ignorablePass_rejects_unselectable
          [of "\<lparr>getPassName = ''Dead Code Elimination'', getPassArgument = Some '''',
                getNormalCtor = Some 1\<rparr>" "\<lambda>P. Some False"]
        ignorablePass_rejects_unselectable
          [of "\<lparr>getPassName = ''Dead Code Elimination'', getPassArgument = Some ''dce'',
                getNormalCtor = None\<rparr>" "\<lambda>P. None"]
        ignorablePass_rejects_unselectable
          [of "\<lparr>getPassName = ''Dead Code Elimination'', getPassArgument = None,
                getNormalCtor = Some 1\<rparr>" "\<lambda>P. Some False"]
  by simp

text \<open>
  C9. The refinement is consulted only for Descriptors whose token is not null and not
  empty and whose constructor is not null: two refinements that agree on those Descriptors
  give the same eligibility check on every Descriptor. In particular the check of the
  filtered parser with \<^verbatim>\<open>PassArgFilter\<close> is always defined, although the filter alone
  is undefined on a null token (\<^verbatim>\<open>strstr\<close> would read through a null pointer).
\<close>

theorem ignorablePass_refinement_domain:
  assumes "\<forall>Q. getPassArgument Q \<noteq> None \<and> getPassArgument Q \<noteq> Some [] \<and> getNormalCtor Q \<noteq> None
              \<longrightarrow> impl1 Q = impl2 Q"
  shows "ignorablePass impl1 P = ignorablePass impl2 P
       \<and> ignorablePass (FilteredPassNameParser_ignorablePassImpl (PassArgFilter Args)) P \<noteq> None
       \<and> (PassArgFilter Args P = None \<longleftrightarrow> getPassArgument P = None)"
proof (intro conjI)
  show "ignorablePass impl1 P = ignorablePass impl2 P"
    using assms by (auto simp: ignorablePass_def split: option.splits)
  show "ignorablePass (FilteredPassNameParser_ignorablePassImpl (PassArgFilter Args)) P \<noteq> None"
    by (auto simp: ignorablePass_def FilteredPassNameParser_ignorablePassImpl_def
          PassArgFilter_def split: option.splits)
  show "PassArgFilter Args P = None \<longleftrightarrow> getPassArgument P = None"
    by (auto simp: PassArgFilter_def split: option.splits)
qed

theorem ignorablePass_refinement_domain_witness:
  "ignorablePass (\<lambda>Q. if getPassArgument Q = None then None else Some False)
        \<lparr>getPassName = ''Dead Store Elimination'', getPassArgument = None,
         getNormalCtor = Some 1\<rparr>
     = ignorablePass PassNameParser_ignorablePassImpl
        \<lparr>getPassName = ''Dead Store Elimination'', getPassArgument = None,
         getNormalCtor = Some 1\<rparr>
   \<and> ignorablePass (FilteredPassNameParser_ignorablePassImpl (PassArgFilter ''-anders_aa -dse''))
        \<lparr>getPassName = ''Dead Store Elimination'', getPassArgument = None,
         getNormalCtor = Some 1\<rparr> = Some True
   \<and> PassArgFilter ''-anders_aa -dse''
        \<lparr>getPassName = ''Dead Store Elimination'', getPassArgument = None,
         getNormalCtor = Some 1\<rparr> = None"
proof -
  let ?impl = "\<lambda>Q. if getPassArgument Q = None then None else Some False"
  let ?P = "\<lparr>getPassName = ''Dead Store Elimination'', getPassArgument = None,
             getNormalCtor = Some (1::nat)\<rparr>"
  have h: "\<forall>Q. getPassArgument Q \<noteq> None \<and> getPassArgument Q \<noteq> Some [] \<and> getNormalCtor Q \<noteq> None
              \<longrightarrow> ?impl Q = PassNameParser_ignorablePassImpl Q"
    by (simp add: PassNameParser_ignorablePassImpl_def)
  have r: "ignorablePass (FilteredPassNameParser_ignorablePassImpl (PassArgFilter ''-anders_aa -dse'')) ?P
             = Some True"
    by (simp add: ignorablePass_def)
  from r ignorablePass_refinement_domain [OF h, of ?P "''-anders_aa -dse''"]
  show ?thesis by simp
qed

section \<open>The allow-list filter\<close>

text \<open>
  C2. The claim asks for exact membership among the whitespace-delimited entries of the
  allow-list. \<^verbatim>\<open>PassArgFilter\<close> searches the token as a substring instead: with the
  allow-list of the header's own usage comment, \<^verbatim>\<open>"-anders_aa -dse"\<close>, a constructible
  Descriptor with the token \<^verbatim>\<open>anders\<close> is admitted although \<^verbatim>\<open>anders\<close> is no entry
  of the list; likewise \<^verbatim>\<open>opt\<close> against \<^verbatim>\<open>optimize\<close>.
\<close>

theorem PassArgFilter_admits_substring:
  "ignorablePass (FilteredPassNameParser_ignorablePassImpl (PassArgFilter ''-anders_aa -dse''))
     (example_pass ''anders'' ''Some Pass'') = Some False
   \<and> ''anders'' \<notin> set (spec_allowlist_entries ''-anders_aa -dse'')
   \<and> ignorablePass (FilteredPassNameParser_ignorablePassImpl (PassArgFilter ''optimize''))
     (example_pass ''opt'' ''Some Pass'') = Some False
   \<and> ''opt'' \<notin> set (spec_allowlist_entries ''optimize'')"
  by (simp add: ignorablePass_def FilteredPassNameParser_ignorablePassImpl_def PassArgFilter_def
        example_pass_def spec_allowlist_entries_def isspace_def)

section \<open>Notifications\<close>

text \<open>
  C7. A notification for a Descriptor that the eligibility check rejects, or one that
  arrives while no option is attached, returns with the registrar unchanged: no entry is
  added and nothing is reported. For a refinement given as a parameter the second case
  needs the check to answer; with the two parsers of the header it always does.
\<close>

theorem passRegistered_noop:
  "(ignorablePass impl P = Some True \<or> (Opt s = None \<and> ignorablePass impl P \<noteq> None)
      \<longrightarrow> passRegistered impl P s = Inr s)
   \<and> (Opt s = None
      \<longrightarrow> passRegistered PassNameParser_ignorablePassImpl P s = Inr s
        \<and> passRegistered (FilteredPassNameParser_ignorablePassImpl (PassArgFilter Args)) P s
            = Inr s)"
  by (auto simp: passRegistered_def ignorablePass_def PassNameParser_ignorablePassImpl_def
        FilteredPassNameParser_ignorablePassImpl_def PassArgFilter_def split: option.splits)

theorem passRegistered_noop_witness:
  "Opt PassNameParser_new = None
   \<and> ignorablePass PassNameParser_ignorablePassImpl (example_pass ''dce'' ''Dead Code Elimination'')
       = Some False
   \<and> passRegistered PassNameParser_ignorablePassImpl
       (example_pass ''dce'' ''Dead Code Elimination'') PassNameParser_new
     = Inr PassNameParser_new
   \<and> passRegistered (FilteredPassNameParser_ignorablePassImpl (PassArgFilter ''-anders_aa -dse''))
       (example_pass ''dce'' ''Dead Code Elimination'') PassNameParser_new
     = Inr PassNameParser_new
   \<and> ignorablePass PassNameParser_ignorablePassImpl (example_pass [] ''No Argument'') = Some True
   \<and> passRegistered PassNameParser_ignorablePassImpl (example_pass [] ''No Argument'')
       \<lparr>Opt = Some 1, Values = [example_entry ''dce'' ''Dead Code Elimination'']\<rparr>
     = Inr \<lparr>Opt = Some 1, Values = [example_entry ''dce'' ''Dead Code Elimination'']\<rparr>"
proof -
  have a: "Opt PassNameParser_new = None" by (simp add: PassNameParser_new_def)
  have b: "ignorablePass PassNameParser_ignorablePassImpl
             (example_pass ''dce'' ''Dead Code Elimination'') = Some False"
    by (simp add: ignorablePass_def PassNameParser_ignorablePassImpl_def example_pass_def)
  have c: "ignorablePass PassNameParser_ignorablePassImpl (example_pass [] ''No Argument'')
             = Some True"
    by (simp add: ignorablePass_def example_pass_def)
  from a b
    passRegistered_noop [of PassNameParser_ignorablePassImpl
      "example_pass ''dce'' ''Dead Code Elimination''" PassNameParser_new "''-anders_aa -dse''"]
  have unattached: "passRegistered PassNameParser_ignorablePassImpl
       (example_pass ''dce'' ''Dead Code Elimination'') PassNameParser_new
     = Inr PassNameParser_new"
    "passRegistered (FilteredPassNameParser_ignorablePassImpl (PassArgFilter ''-anders_aa -dse''))
       (example_pass ''dce'' ''Dead Code Elimination'') PassNameParser_new
     = Inr PassNameParser_new"
    by simp_all
  from c
    passRegistered_noop [of PassNameParser_ignorablePassImpl "example_pass [] ''No Argument''"
      "\<lparr>Opt = Some 1, Values = [example_entry ''dce'' ''Dead Code Elimination'']\<rparr>"]
  have rejected: "passRegistered PassNameParser_ignorablePassImpl
       (example_pass [] ''No Argument'')
       \<lparr>Opt = Some 1, Values = [example_entry ''dce'' ''Dead Code Elimination'']\<rparr>
     = Inr \<lparr>Opt = Some 1, Values = [example_entry ''dce'' ''Dead Code Elimination'']\<rparr>"
    by simp
  from a b c unattached rejected show ?thesis by blast
qed

text \<open>
  C4. An eligible Descriptor whose token is already in the table of an attached registrar,
  at whatever position, takes the fatal path: the notification writes the message, which
  contains the token, and aborts, so nothing after it runs and the abort happens once,
  whether the Descriptor arrives as a live registration or in a replay. In particular,
  when a first eligible Descriptor with that token has been registered, then after any
  further events that complete its entry is still in the table (it is never overwritten)
  and the notification for the second aborts.
\<close>

theorem passRegistered_duplicate_aborts:
  assumes "ignorablePass impl P2 = Some False" and "getPassArgument P2 = Some arg"
  shows "(Opt s \<noteq> None \<and> arg \<in> fst ` set (Values s)
            \<longrightarrow> passRegistered impl P2 s = Inl (Abort (duplicate_message arg))
              \<and> run impl (RegisterPass P2 # later) \<lparr>known = kn, listener = s\<rparr>
                  = Inl (Abort (duplicate_message arg))
              \<and> enumeratePasses impl (P2 # Ps) s = Inl (Abort (duplicate_message arg)))
       \<and> sublist arg (duplicate_message arg)
       \<and> (Opt start \<noteq> None \<and> ignorablePass impl First = Some False \<and> getPassArgument First = Some arg
          \<and> passRegistered impl First start = Inr mid
          \<and> run impl evs \<lparr>known = ks, listener = mid\<rparr> = Inr sys
            \<longrightarrow> (arg, (First, getPassName First)) \<in> set (Values (listener sys))
              \<and> passRegistered impl P2 (listener sys) = Inl (Abort (duplicate_message arg))
              \<and> run impl (evs @ RegisterPass P2 # later) \<lparr>known = ks, listener = mid\<rparr>
                  = Inl (Abort (duplicate_message arg)))"
proof (intro conjI impI)
  have dup: "passRegistered impl P2 t = Inl (Abort (duplicate_message arg))"
    if "Opt t \<noteq> None" "arg \<in> fst ` set (Values t)" for t
    using that by (simp add: passRegistered_eligible [OF assms(1) _ assms(2)])
  {
    assume a: "Opt s \<noteq> None \<and> arg \<in> fst ` set (Values s)"
    then have d: "passRegistered impl P2 s = Inl (Abort (duplicate_message arg))"
      by (intro dup) simp_all
    show "passRegistered impl P2 s = Inl (Abort (duplicate_message arg))" by (rule d)
    show "run impl (RegisterPass P2 # later) \<lparr>known = kn, listener = s\<rparr>
            = Inl (Abort (duplicate_message arg))"
      using d by simp
    show "enumeratePasses impl (P2 # Ps) s = Inl (Abort (duplicate_message arg))"
      using d by (simp add: passEnumerate_def)
  }
  show "sublist arg (duplicate_message arg)" by (rule duplicate_message_names_token)
  {
    assume b: "Opt start \<noteq> None \<and> ignorablePass impl First = Some False \<and> getPassArgument First = Some arg
          \<and> passRegistered impl First start = Inr mid
          \<and> run impl evs \<lparr>known = ks, listener = mid\<rparr> = Inr sys"
    then have att: "Opt start \<noteq> None" and el: "ignorablePass impl First = Some False"
      and tok: "getPassArgument First = Some arg" and one: "passRegistered impl First start = Inr mid"
      and r: "run impl evs \<lparr>known = ks, listener = mid\<rparr> = Inr sys"
      by simp_all
    from one have mid: "mid = start\<lparr>Values := Values start @ [(arg, (First, getPassName First))]\<rparr>"
      by (simp add: passRegistered_eligible [OF el att tok] split: if_splits)
    with att have "Opt mid \<noteq> None" and "(arg, (First, getPassName First)) \<in> set (Values mid)"
      by simp_all
    with run_kept [OF r] have att': "Opt (listener sys) \<noteq> None"
      and mem: "(arg, (First, getPassName First)) \<in> set (Values (listener sys))"
      by auto
    show "(arg, (First, getPassName First)) \<in> set (Values (listener sys))" by (rule mem)
    from mem have "arg \<in> fst ` set (Values (listener sys))" by force
    with att' have d: "passRegistered impl P2 (listener sys) = Inl (Abort (duplicate_message arg))"
      by (intro dup)
    show "passRegistered impl P2 (listener sys) = Inl (Abort (duplicate_message arg))"
      by (rule d)
    show "run impl (evs @ RegisterPass P2 # later) \<lparr>known = ks, listener = mid\<rparr>
            = Inl (Abort (duplicate_message arg))"
      using r d by (simp add: run_append)
  }
qed

theorem passRegistered_duplicate_aborts_witness:
  "passRegistered PassNameParser_ignorablePassImpl
       (example_pass ''dce'' ''Die Code Elimination'')
       \<lparr>Opt = Some 1,
        Values = [example_entry ''adce'' ''Aggressive Dead Code Elimination'',
                  example_entry ''dce'' ''Dead Code Elimination'',
                  example_entry ''mem2reg'' ''Promote Memory to Register'']\<rparr>
     = Inl (Abort ''Two passes with the same argument (-dce) attempted to be registered!\<newline>'')
   \<and> sublist ''dce''
        ''Two passes with the same argument (-dce) attempted to be registered!\<newline>''
   \<and> passRegistered PassNameParser_ignorablePassImpl
       (example_pass ''dce'' ''Dead Code Elimination'') \<lparr>Opt = Some 1, Values = []\<rparr>
     = Inr \<lparr>Opt = Some 1, Values = [example_entry ''dce'' ''Dead Code Elimination'']\<rparr>
   \<and> run PassNameParser_ignorablePassImpl
       [RegisterPass (example_pass ''mem2reg'' ''Promote Memory to Register''), PrintOptionInfo]
       \<lparr>known = [example_pass ''dce'' ''Dead Code Elimination''],
        listener = \<lparr>Opt = Some 1, Values = [example_entry ''dce'' ''Dead Code Elimination'']\<rparr>\<rparr>
     = Inr \<lparr>known = [example_pass ''dce'' ''Dead Code Elimination'',
                     example_pass ''mem2reg'' ''Promote Memory to Register''],
            listener = \<lparr>Opt = Some 1,
                        Values = [example_entry ''dce'' ''Dead Code Elimination'',
                                  example_entry ''mem2reg'' ''Promote Memory to Register'']\<rparr>\<rparr>
   \<and> run PassNameParser_ignorablePassImpl
       ([RegisterPass (example_pass ''mem2reg'' ''Promote Memory to Register''), PrintOptionInfo]
        @ RegisterPass (example_pass ''dce'' ''Die Code Elimination'')
        # [RegisterPass (example_pass ''adce'' ''Aggressive Dead Code Elimination'')])
       \<lparr>known = [example_pass ''dce'' ''Dead Code Elimination''],
        listener = \<lparr>Opt = Some 1, Values = [example_entry ''dce'' ''Dead Code Elimination'']\<rparr>\<rparr>
     = Inl (Abort ''Two passes with the same argument (-dce) attempted to be registered!\<newline>'')"
proof -
  let ?First = "example_pass ''dce'' ''Dead Code Elimination''"
  let ?Second = "example_pass ''dce'' ''Die Code Elimination''"
  let ?M = "example_pass ''mem2reg'' ''Promote Memory to Register''"
  let ?A = "example_pass ''adce'' ''Aggressive Dead Code Elimination''"
  let ?tab = "\<lparr>Opt = Some (1::nat),
        Values = [example_entry ''adce'' ''Aggressive Dead Code Elimination'',
                  example_entry ''dce'' ''Dead Code Elimination'',
                  example_entry ''mem2reg'' ''Promote Memory to Register'']\<rparr>"
  let ?start = "\<lparr>Opt = Some (1::nat), Values = []\<rparr>"
  let ?mid = "\<lparr>Opt = Some (1::nat), Values = [example_entry ''dce'' ''Dead Code Elimination'']\<rparr>"
  let ?sys = "\<lparr>known = [?First, ?M],
            listener = \<lparr>Opt = Some (1::nat),
                        Values = [example_entry ''dce'' ''Dead Code Elimination'',
                                  example_entry ''mem2reg'' ''Promote Memory to Register'']\<rparr>\<rparr>"
  have e1: "ignorablePass PassNameParser_ignorablePassImpl ?First = Some False"
    by (simp add: ignorablePass_def PassNameParser_ignorablePassImpl_def example_pass_def)
  have e2: "ignorablePass PassNameParser_ignorablePassImpl ?Second = Some False"
    by (simp add: ignorablePass_def PassNameParser_ignorablePassImpl_def example_pass_def)
  have t1: "getPassArgument ?First = Some ''dce''" by (simp add: example_pass_def)
  have t2: "getPassArgument ?Second = Some ''dce''" by (simp add: example_pass_def)
  have a: "Opt ?tab \<noteq> None \<and> ''dce'' \<in> fst ` set (Values ?tab)"
    by (simp add: example_entry_def)
  have a0: "Opt ?start \<noteq> None" by simp
  have r1: "passRegistered PassNameParser_ignorablePassImpl ?First ?start = Inr ?mid"
    by (simp add: example_defs)
  have r2: "run PassNameParser_ignorablePassImpl [RegisterPass ?M, PrintOptionInfo]
              \<lparr>known = [?First], listener = ?mid\<rparr> = Inr ?sys"
    by (simp add: example_defs)
  have msg: "duplicate_message ''dce''
               = ''Two passes with the same argument (-dce) attempted to be registered!\<newline>''"
    by (simp add: duplicate_message_def)
  note th = passRegistered_duplicate_aborts [OF e2 t2, where s = ?tab and start = ?start and First = ?First
      and mid = ?mid and evs = "[RegisterPass ?M, PrintOptionInfo]" and ks = "[?First]"
      and sys = ?sys and later = "[RegisterPass ?A]", unfolded msg]
  have b: "Opt ?start \<noteq> None \<and> ignorablePass PassNameParser_ignorablePassImpl ?First = Some False
          \<and> getPassArgument ?First = Some ''dce''
          \<and> passRegistered PassNameParser_ignorablePassImpl ?First ?start = Inr ?mid
          \<and> run PassNameParser_ignorablePassImpl [RegisterPass ?M, PrintOptionInfo]
                \<lparr>known = [?First], listener = ?mid\<rparr> = Inr ?sys"
    using a0 e1 t1 r1 r2 by (intro conjI)
  note g1 = th [THEN conjunct1, THEN mp, OF a, THEN conjunct1]
  note g2 = th [THEN conjunct2, THEN conjunct1]
  note g3 = th [THEN conjunct2, THEN conjunct2, THEN mp, OF b, THEN conjunct2, THEN conjunct2]
  from g1 g2 r1 r2 g3 show ?thesis by (intro conjI)
qed

text \<open>
  C10. The fatal path is taken exactly when the Descriptor is eligible, an option is
  attached and the token is already in the table. A Descriptor that shares a registered
  token but is ineligible, or that arrives while no option is attached, is dropped: the
  notification returns with the registrar unchanged.
\<close>

theorem duplicate_check_only_when_eligible_and_attached:
  "((\<exists>msg. passRegistered impl P s = Inl (Abort msg))
      \<longleftrightarrow> ignorablePass impl P = Some False \<and> Opt s \<noteq> None
          \<and> (\<exists>arg. getPassArgument P = Some arg \<and> arg \<in> fst ` set (Values s)))
   \<and> (getPassArgument P = Some arg \<and> arg \<in> fst ` set (Values s)
        \<and> (ignorablePass impl P = Some True \<or> (Opt s = None \<and> ignorablePass impl P \<noteq> None))
       \<longrightarrow> passRegistered impl P s = Inr s)"
  by (auto simp: passRegistered_def findOption_found split: option.splits)

theorem duplicate_check_only_when_eligible_and_attached_witness:
  "passRegistered PassNameParser_ignorablePassImpl
     \<lparr>getPassName = ''Die Code Elimination'', getPassArgument = Some ''dce'',
      getNormalCtor = None\<rparr>
     \<lparr>Opt = Some 1, Values = [example_entry ''dce'' ''Dead Code Elimination'']\<rparr>
   = Inr \<lparr>Opt = Some 1, Values = [example_entry ''dce'' ''Dead Code Elimination'']\<rparr>
   \<and> passRegistered PassNameParser_ignorablePassImpl
     (example_pass ''dce'' ''Die Code Elimination'')
     \<lparr>Opt = None, Values = [example_entry ''dce'' ''Dead Code Elimination'']\<rparr>
   = Inr \<lparr>Opt = None, Values = [example_entry ''dce'' ''Dead Code Elimination'']\<rparr>
   \<and> passRegistered
     (FilteredPassNameParser_ignorablePassImpl (PassArgFilter ''-anders_aa -dse''))
     (example_pass ''dce'' ''Die Code Elimination'')
     \<lparr>Opt = Some 1, Values = [example_entry ''dce'' ''Dead Code Elimination'']\<rparr>
   = Inr \<lparr>Opt = Some 1, Values = [example_entry ''dce'' ''Dead Code Elimination'']\<rparr>"
proof -
  let ?P = "\<lparr>getPassName = ''Die Code Elimination'', getPassArgument = Some ''dce'',
             getNormalCtor = None\<rparr>"
  let ?Q = "example_pass ''dce'' ''Die Code Elimination''"
  let ?s = "\<lparr>Opt = Some (1::nat), Values = [example_entry ''dce'' ''Dead Code Elimination'']\<rparr>"
  let ?u = "\<lparr>Opt = None :: nat option, Values = [example_entry ''dce'' ''Dead Code Elimination'']\<rparr>"
  let ?f = "FilteredPassNameParser_ignorablePassImpl (PassArgFilter ''-anders_aa -dse'')"
  have m: "''dce'' \<in> fst ` set (Values ?s)" "''dce'' \<in> fst ` set (Values ?u)"
    by (simp_all add: example_entry_def)
  have i1: "ignorablePass PassNameParser_ignorablePassImpl ?P = Some True"
    by (simp add: ignorablePass_def)
  have i2: "ignorablePass PassNameParser_ignorablePassImpl ?Q \<noteq> None"
    by (simp add: ignorablePass_def PassNameParser_ignorablePassImpl_def example_pass_def)
  have i3: "ignorablePass ?f ?Q = Some True"
    by (simp add: ignorablePass_def FilteredPassNameParser_ignorablePassImpl_def
          PassArgFilter_def example_pass_def)
  have tP: "getPassArgument ?P = Some ''dce''" by simp
  have tQ: "getPassArgument ?Q = Some ''dce''" by (simp add: example_pass_def)
  from duplicate_check_only_when_eligible_and_attached
         [of PassNameParser_ignorablePassImpl ?P ?s "''dce''"] m i1 tP
       duplicate_check_only_when_eligible_and_attached
         [of PassNameParser_ignorablePassImpl ?Q ?u "''dce''"] i2 tQ
       duplicate_check_only_when_eligible_and_attached
         [of ?f ?Q ?s "''dce''"] i3
  show ?thesis by simp
qed

section \<open>The table of entries\<close>

text \<open>
  C8. Token uniqueness is an invariant: whenever a sequence of registrations,
  attachments and help renderings, started from a new registrar, completes (no abort), the
  tokens of the entries are pairwise distinct.
\<close>

theorem tokens_distinct_invariant:
  "run impl evs system_new = Inr sys \<Longrightarrow> distinct (map fst (Values (listener sys)))"
  by (erule run_distinct) (simp add: system_new_def PassNameParser_new_def)

theorem tokens_distinct_invariant_witness:
  "run PassNameParser_ignorablePassImpl
     [RegisterPass (example_pass ''mem2reg'' ''Promote Memory to Register''),
      Initialize 1,
      RegisterPass (example_pass ''dce'' ''Dead Code Elimination''),
      RegisterPass (example_pass [] ''No Argument''),
      RegisterPass (example_pass ''adce'' ''Aggressive Dead Code Elimination''),
      PrintOptionInfo] system_new
   = Inr \<lparr>known = [example_pass ''mem2reg'' ''Promote Memory to Register'',
                   example_pass ''dce'' ''Dead Code Elimination'',
                   example_pass [] ''No Argument'',
                   example_pass ''adce'' ''Aggressive Dead Code Elimination''],
          listener = \<lparr>Opt = Some 1,
                      Values = [example_entry ''adce'' ''Aggressive Dead Code Elimination'',
                                example_entry ''dce'' ''Dead Code Elimination'',
                                example_entry ''mem2reg'' ''Promote Memory to Register'']\<rparr>\<rparr>
   \<and> distinct (map fst
        [example_entry ''adce'' ''Aggressive Dead Code Elimination'',
         example_entry ''dce'' ''Dead Code Elimination'',
         example_entry ''mem2reg'' ''Promote Memory to Register''])"
proof -
  let ?sys = "\<lparr>known = [example_pass ''mem2reg'' ''Promote Memory to Register'',
                   example_pass ''dce'' ''Dead Code Elimination'',
                   example_pass [] ''No Argument'',
                   example_pass ''adce'' ''Aggressive Dead Code Elimination''],
          listener = \<lparr>Opt = Some (1::nat),
                      Values = [example_entry ''adce'' ''Aggressive Dead Code Elimination'',
                                example_entry ''dce'' ''Dead Code Elimination'',
                                example_entry ''mem2reg'' ''Promote Memory to Register'']\<rparr>\<rparr>"
  have r: "run PassNameParser_ignorablePassImpl
     [RegisterPass (example_pass ''mem2reg'' ''Promote Memory to Register''),
      Initialize 1,
      RegisterPass (example_pass ''dce'' ''Dead Code Elimination''),
      RegisterPass (example_pass [] ''No Argument''),
      RegisterPass (example_pass ''adce'' ''Aggressive Dead Code Elimination''),
      PrintOptionInfo] system_new = Inr ?sys"
    by (simp add: example_defs)
  from tokens_distinct_invariant [OF r] have "distinct (map fst (Values (listener ?sys)))" .
  with r show ?thesis by simp
qed

text \<open>
  C3. Eligible Descriptors with pairwise distinct tokens are registered, some before the
  option attaches (\<open>pre\<close>, replayed at attachment) and some after (\<open>post\<close>). The run
  completes, the entries are exactly those of the Descriptors, the set of tokens in the
  table is exactly the set of their tokens, and no token occurs twice.
\<close>

theorem replay_and_live_registrations:
  assumes "\<forall>P \<in> set (pre @ post). ignorablePass impl P = Some False"
    and "distinct (map getPassArgument (pre @ post))"
  shows "\<exists>sys. run impl (map RegisterPass pre @ Initialize O' # map RegisterPass post) system_new
                 = Inr sys
           \<and> set (Values (listener sys)) = set (literal_entries (pre @ post))
           \<and> Some ` fst ` set (Values (listener sys)) = getPassArgument ` set (pre @ post)
           \<and> distinct (map fst (Values (listener sys)))"
proof -
  let ?s0 = "PassNameParser_new\<lparr>Opt := Some O'\<rparr>"
  let ?s1 = "?s0\<lparr>Values := literal_entries pre\<rparr>"
  let ?s2 = "?s1\<lparr>Values := literal_entries pre @ literal_entries post\<rparr>"
  let ?sys = "\<lparr>known = pre @ post, listener = ?s2\<rparr>"
  have tok: "\<forall>P \<in> set (pre @ post). getPassArgument P \<noteq> None"
    using assms(1) ignorablePass_False_token by fastforce
  have toks: "map (Some \<circ> fst) (literal_entries (pre @ post)) = map getPassArgument (pre @ post)"
    by (rule literal_entries_tokens [OF tok])
  have before: "enumeratePasses impl pre PassNameParser_new = Inr PassNameParser_new"
    using assms(1) by (intro enumeratePasses_unattached) (simp_all add: PassNameParser_new_def)
  have replay: "enumeratePasses impl pre ?s0 = Inr ?s1"
    using assms enumeratePasses_fresh [of ?s0 pre impl]
    by (simp add: PassNameParser_new_def)
  have fresh: "\<forall>P \<in> set post. \<forall>arg. getPassArgument P = Some arg \<longrightarrow> arg \<notin> fst ` set (Values ?s1)"
  proof (intro ballI allI impI)
    fix P arg assume P: "P \<in> set post" and arg: "getPassArgument P = Some arg"
    show "arg \<notin> fst ` set (Values ?s1)"
    proof
      assume "arg \<in> fst ` set (Values ?s1)"
      then have "Some arg \<in> set (map (Some \<circ> fst) (literal_entries pre))" by auto
      also have "map (Some \<circ> fst) (literal_entries pre) = map getPassArgument pre"
        using tok by (intro literal_entries_tokens) simp
      finally have "getPassArgument P \<in> getPassArgument ` set pre" using arg by simp
      with assms(2) P show False by auto
    qed
  qed
  have live: "enumeratePasses impl post ?s1 = Inr ?s2"
    using assms enumeratePasses_fresh [OF _ _ _ fresh, of impl]
    by (simp add: PassNameParser_new_def)
  have "run impl (map RegisterPass pre @ Initialize O' # map RegisterPass post) system_new = Inr ?sys"
    by (simp add: run_append run_register_enumerate system_new_def before initialize_def
          replay live)
  moreover have "set (Values (listener ?sys)) = set (literal_entries (pre @ post))"
    by (simp add: literal_entries_append)
  moreover have "Some ` fst ` set (Values (listener ?sys)) = getPassArgument ` set (pre @ post)"
  proof -
    have "Some ` fst ` set (literal_entries (pre @ post))
            = set (map (Some \<circ> fst) (literal_entries (pre @ post)))"
      by (simp add: image_comp)
    also have "\<dots> = getPassArgument ` set (pre @ post)"
      by (simp only: toks set_map)
    finally show ?thesis by (simp add: literal_entries_append)
  qed
  moreover have "distinct (map fst (Values (listener ?sys)))"
  proof -
    have "distinct (map (Some \<circ> fst) (literal_entries (pre @ post)))"
      using assms(2) by (simp only: toks)
    then have "distinct (map fst (literal_entries (pre @ post)))"
      by (simp add: distinct_map comp_def inj_on_def)
    then show ?thesis by (simp add: literal_entries_append)
  qed
  ultimately show ?thesis by blast
qed

theorem replay_and_live_registrations_witness:
  "ignorablePass PassNameParser_ignorablePassImpl
     (example_pass ''mem2reg'' ''Promote Memory to Register'') = Some False
   \<and> ignorablePass PassNameParser_ignorablePassImpl
     (example_pass ''dce'' ''Dead Code Elimination'') = Some False
   \<and> ignorablePass PassNameParser_ignorablePassImpl
     (example_pass ''adce'' ''Aggressive Dead Code Elimination'') = Some False
   \<and> distinct (map getPassArgument
        ([example_pass ''mem2reg'' ''Promote Memory to Register'',
          example_pass ''dce'' ''Dead Code Elimination'']
         @ [example_pass ''adce'' ''Aggressive Dead Code Elimination'']))
   \<and> (\<exists>sys. run PassNameParser_ignorablePassImpl
               [RegisterPass (example_pass ''mem2reg'' ''Promote Memory to Register''),
                RegisterPass (example_pass ''dce'' ''Dead Code Elimination''),
                Initialize 1,
                RegisterPass (example_pass ''adce'' ''Aggressive Dead Code Elimination'')]
               system_new = Inr sys
         \<and> fst ` set (Values (listener sys)) = {''mem2reg'', ''dce'', ''adce''})"
proof -
  let ?pre = "[example_pass ''mem2reg'' ''Promote Memory to Register'',
               example_pass ''dce'' ''Dead Code Elimination'']"
  let ?post = "[example_pass ''adce'' ''Aggressive Dead Code Elimination'']"
  have e: "\<forall>P \<in> set (?pre @ ?post). ignorablePass PassNameParser_ignorablePassImpl P = Some False"
    by (simp add: ignorablePass_def PassNameParser_ignorablePassImpl_def example_pass_def)
  have d: "distinct (map getPassArgument (?pre @ ?post))"
    by (simp add: example_pass_def)
  from replay_and_live_registrations [OF e d, of 1] obtain sys where
    r: "run PassNameParser_ignorablePassImpl
          (map RegisterPass ?pre @ Initialize 1 # map RegisterPass ?post) system_new = Inr sys"
    and v: "set (Values (listener sys)) = set (literal_entries (?pre @ ?post))"
    by blast
  from v have "fst ` set (Values (listener sys)) = {''mem2reg'', ''dce'', ''adce''}"
    by (simp add: example_pass_def)
  with r have "\<exists>sys. run PassNameParser_ignorablePassImpl
               [RegisterPass (example_pass ''mem2reg'' ''Promote Memory to Register''),
                RegisterPass (example_pass ''dce'' ''Dead Code Elimination''),
                Initialize 1,
                RegisterPass (example_pass ''adce'' ''Aggressive Dead Code Elimination'')]
               system_new = Inr sys
         \<and> fst ` set (Values (listener sys)) = {''mem2reg'', ''dce'', ''adce''}"
    by auto
  moreover from e have
    "ignorablePass PassNameParser_ignorablePassImpl
       (example_pass ''mem2reg'' ''Promote Memory to Register'') = Some False"
    "ignorablePass PassNameParser_ignorablePassImpl
       (example_pass ''dce'' ''Dead Code Elimination'') = Some False"
    "ignorablePass PassNameParser_ignorablePassImpl
       (example_pass ''adce'' ''Aggressive Dead Code Elimination'') = Some False"
    by simp_all
  ultimately show ?thesis using d by blast
qed

section \<open>Rendering help\<close>

text \<open>
  C6. What \<^verbatim>\<open>printOptionInfo\<close> presents is the registered entries (the same entries, as
  a multiset) in ascending order of their tokens under the bytewise string order.
\<close>

theorem printOptionInfo_presents_sorted:
  "sorted (map fst (snd (printOptionInfo s)))
   \<and> mset (snd (printOptionInfo s)) = mset (Values s)"
  by (simp add: printOptionInfo_def parser_printOptionInfo_def Let_def std_sort_sorted
        std_sort_mset)

lemma printOptionInfo_example:
  "map fst (snd (printOptionInfo
     \<lparr>Opt = Some 1,
      Values = [example_entry ''mem2reg'' ''Promote Memory to Register'',
                example_entry ''dce'' ''Dead Code Elimination'',
                example_entry ''adce'' ''Aggressive Dead Code Elimination'']\<rparr>))
   = [''adce'', ''dce'', ''mem2reg'']"
  by (simp add: example_defs)

text \<open>
  C1, as stated, does not hold: \<^verbatim>\<open>printOptionInfo\<close> casts \<^verbatim>\<open>const\<close> away and sorts
  \<^verbatim>\<open>Values\<close> itself. With the entries registered in the order mem2reg, dce, adce the
  table holds them in the order adce, dce, mem2reg after the call.
\<close>

theorem printOptionInfo_reorders_Values:
  "Values (fst (printOptionInfo
     \<lparr>Opt = Some 1,
      Values = [example_entry ''mem2reg'' ''Promote Memory to Register'',
                example_entry ''dce'' ''Dead Code Elimination'',
                example_entry ''adce'' ''Aggressive Dead Code Elimination'']\<rparr>))
   = [example_entry ''adce'' ''Aggressive Dead Code Elimination'',
      example_entry ''dce'' ''Dead Code Elimination'',
      example_entry ''mem2reg'' ''Promote Memory to Register'']
   \<and> Values (fst (printOptionInfo
     \<lparr>Opt = Some 1,
      Values = [example_entry ''mem2reg'' ''Promote Memory to Register'',
                example_entry ''dce'' ''Dead Code Elimination'',
                example_entry ''adce'' ''Aggressive Dead Code Elimination'']\<rparr>))
   \<noteq> Values
     \<lparr>Opt = Some 1,
      Values = [example_entry ''mem2reg'' ''Promote Memory to Register'',
                example_entry ''dce'' ''Dead Code Elimination'',
                example_entry ''adce'' ''Aggressive Dead Code Elimination'']\<rparr>"
  by (simp add: example_defs)

text \<open>
  C1, amended. \<^verbatim>\<open>printOptionInfo\<close> sorts the backing table in place: after the call
  \<^verbatim>\<open>Values\<close> holds the same entries (as a multiset) in ascending order of token, which is
  also what is presented, and \<^verbatim>\<open>Opt\<close> is unchanged. Where the tokens of the table are
  pairwise distinct, as in every state reached from a new registrar, every outcome that
  \<^verbatim>\<open>std::sort\<close> may produce is the one presented, sorting it again changes nothing,
  rendering twice in a row presents the same output, and the second call leaves the
  registrar as the first left it.
\<close>

theorem printOptionInfo_sorts_in_place:
  "mset (Values (fst (printOptionInfo s))) = mset (Values s)
   \<and> sorted (map fst (Values (fst (printOptionInfo s))))
   \<and> Opt (fst (printOptionInfo s)) = Opt s
   \<and> snd (printOptionInfo s) = Values (fst (printOptionInfo s))
   \<and> (distinct (map fst (Values s))
        \<or> (\<exists>impl evs sys. run impl evs system_new = Inr sys \<and> listener sys = s)
      \<longrightarrow> (\<forall>ys zs. std_sort_contract ValLessThan (Values s) ys
                   \<and> std_sort_contract ValLessThan ys zs
                 \<longrightarrow> ys = snd (printOptionInfo s) \<and> zs = ys)
        \<and> snd (printOptionInfo (fst (printOptionInfo s))) = snd (printOptionInfo s)
        \<and> fst (printOptionInfo (fst (printOptionInfo s))) = fst (printOptionInfo s))"
proof -
  have always: "mset (Values (fst (printOptionInfo s))) = mset (Values s)
    \<and> sorted (map fst (Values (fst (printOptionInfo s))))
    \<and> Opt (fst (printOptionInfo s)) = Opt s
    \<and> snd (printOptionInfo s) = Values (fst (printOptionInfo s))"
    by (simp add: printOptionInfo_def parser_printOptionInfo_def Let_def std_sort_sorted
          std_sort_mset)
  have twice: "snd (printOptionInfo (fst (printOptionInfo s))) = snd (printOptionInfo s)
    \<and> fst (printOptionInfo (fst (printOptionInfo s))) = fst (printOptionInfo s)"
    if d: "distinct (map fst (Values s))"
  proof -
    let ?ys = "std_sort ValLessThan (Values s)"
    have "std_sort_contract ValLessThan ?ys (std_sort ValLessThan ?ys)"
      by (rule std_sort_conforms)
    with std_sort_contract_twice [OF d std_sort_conforms]
    have "std_sort ValLessThan ?ys = ?ys" by blast
    then show ?thesis
      by (simp add: printOptionInfo_def parser_printOptionInfo_def Let_def)
  qed
  have any: "ys = snd (printOptionInfo s) \<and> zs = ys"
    if d: "distinct (map fst (Values s))"
      and c: "std_sort_contract ValLessThan (Values s) ys \<and> std_sort_contract ValLessThan ys zs"
    for ys zs
    using std_sort_contract_twice [OF d, of ys zs] c
    by (simp add: printOptionInfo_def parser_printOptionInfo_def Let_def)
  have dist: "distinct (map fst (Values s))"
    if "distinct (map fst (Values s))
        \<or> (\<exists>impl evs sys. run impl evs system_new = Inr sys \<and> listener sys = s)"
    using that
  proof
    assume "\<exists>impl evs sys. run impl evs system_new = Inr sys \<and> listener sys = s"
    then obtain impl evs sys where r: "run impl evs system_new = Inr sys" and l: "listener sys = s"
      by blast
    from run_distinct [OF r] l show ?thesis
      by (simp add: system_new_def PassNameParser_new_def)
  qed
  from always twice any dist show ?thesis by blast
qed

theorem printOptionInfo_sorts_in_place_witness:
  "distinct (map fst
     [example_entry ''mem2reg'' ''Promote Memory to Register'',
      example_entry ''dce'' ''Dead Code Elimination'',
      example_entry ''adce'' ''Aggressive Dead Code Elimination''])
   \<and> std_sort_contract ValLessThan
     [example_entry ''mem2reg'' ''Promote Memory to Register'',
      example_entry ''dce'' ''Dead Code Elimination'',
      example_entry ''adce'' ''Aggressive Dead Code Elimination'']
     [example_entry ''adce'' ''Aggressive Dead Code Elimination'',
      example_entry ''dce'' ''Dead Code Elimination'',
      example_entry ''mem2reg'' ''Promote Memory to Register'']
   \<and> snd (printOptionInfo
       \<lparr>Opt = Some 1,
        Values = [example_entry ''mem2reg'' ''Promote Memory to Register'',
                  example_entry ''dce'' ''Dead Code Elimination'',
                  example_entry ''adce'' ''Aggressive Dead Code Elimination'']\<rparr>)
     = [example_entry ''adce'' ''Aggressive Dead Code Elimination'',
        example_entry ''dce'' ''Dead Code Elimination'',
        example_entry ''mem2reg'' ''Promote Memory to Register'']
   \<and> snd (printOptionInfo (fst (printOptionInfo
       \<lparr>Opt = Some 1,
        Values = [example_entry ''mem2reg'' ''Promote Memory to Register'',
                  example_entry ''dce'' ''Dead Code Elimination'',
                  example_entry ''adce'' ''Aggressive Dead Code Elimination'']\<rparr>)))
     = snd (printOptionInfo
       \<lparr>Opt = Some 1,
        Values = [example_entry ''mem2reg'' ''Promote Memory to Register'',
                  example_entry ''dce'' ''Dead Code Elimination'',
                  example_entry ''adce'' ''Aggressive Dead Code Elimination'']\<rparr>)"
proof -
  let ?xs = "[example_entry ''mem2reg'' ''Promote Memory to Register'',
      example_entry ''dce'' ''Dead Code Elimination'',
      example_entry ''adce'' ''Aggressive Dead Code Elimination'']"
  let ?ys = "[example_entry ''adce'' ''Aggressive Dead Code Elimination'',
      example_entry ''dce'' ''Dead Code Elimination'',
      example_entry ''mem2reg'' ''Promote Memory to Register'']"
  let ?s = "\<lparr>Opt = Some (1::nat), Values = ?xs\<rparr>"
  have d: "distinct (map fst ?xs)" by (simp add: example_entry_def)
  have c: "std_sort_contract ValLessThan ?xs ?ys"
    by (simp add: std_sort_contract_def ValLessThan_def example_entry_def)
  have h: "distinct (map fst (Values ?s))
        \<or> (\<exists>impl evs sys. run impl evs system_new = Inr sys \<and> listener sys = ?s)"
    by (simp add: example_entry_def)
  have c1: "std_sort_contract ValLessThan (Values ?s) ?ys"
    by (simp add: std_sort_contract_def ValLessThan_def example_entry_def)
  have c2: "std_sort_contract ValLessThan ?ys ?ys"
    by (simp add: std_sort_contract_def ValLessThan_def example_entry_def)
  note core = printOptionInfo_sorts_in_place
    [of ?s, THEN conjunct2, THEN conjunct2, THEN conjunct2, THEN conjunct2, THEN mp, OF h]
  from core [THEN conjunct1] c1 c2 have "?ys = snd (printOptionInfo ?s)" by blast
  then have p: "snd (printOptionInfo ?s) = ?ys" by (rule sym)
  note q = core [THEN conjunct2, THEN conjunct1]
  from d c p q show ?thesis by (intro conjI)
qed

end
